theory Spec2Isabelle
  imports Main "HOL-Library.Sublist"
begin

section \<open>Characters\<close>

text \<open>
  Texts are modelled as \<^typ>\<open>string\<close> over ASCII: a \<^typ>\<open>char\<close> stands for a code
  point below 128, on which the classes below agree with Python's \<^verbatim>\<open>\d\<close>,
  \<^verbatim>\<open>\w\<close>, \<^verbatim>\<open>\s\<close> and with case-insensitive matching. Code points from 128 on
  (where Python consults the Unicode tables) are outside the model.
\<close>

definition is_digit :: "char \<Rightarrow> bool" where
  "is_digit c = (let n = (of_char c :: nat) in 48 \<le> n \<and> n \<le> 57)"

definition is_alpha :: "char \<Rightarrow> bool" where
  "is_alpha c = (let n = (of_char c :: nat) in (65 \<le> n \<and> n \<le> 90) \<or> (97 \<le> n \<and> n \<le> 122))"

definition is_word :: "char \<Rightarrow> bool" where
  "is_word c = (is_digit c \<or> is_alpha c \<or> c = CHR ''_'')"

definition is_space :: "char \<Rightarrow> bool" where
  "is_space c = (let n = (of_char c :: nat) in (9 \<le> n \<and> n \<le> 13) \<or> (28 \<le> n \<and> n \<le> 32))"

text \<open>
  Equality of two characters under \<^verbatim>\<open>re.IGNORECASE\<close>: the two cases of an ASCII
  letter are 32 apart.
\<close>

definition ci_eq :: "char \<Rightarrow> char \<Rightarrow> bool" where
  "ci_eq a b =
     (a = b \<or> (is_alpha a \<and> is_alpha b
        \<and> ((of_char a :: nat) + 32 = of_char b \<or> (of_char b :: nat) + 32 = of_char a)))"

section \<open>Extractor: the OTP patterns\<close>

text \<open>
  The fragment of Python's regular expressions that \<^verbatim>\<open>otp_patterns\<close> uses, under
  \<^verbatim>\<open>re.IGNORECASE\<close>. A pattern is a sequence of atoms: the assertion \<^verbatim>\<open>\b\<close>, or a
  greedy repetition \<^verbatim>\<open>c{lo,hi}\<close> of a one-character class (\<^verbatim>\<open>c*\<close> is
  \<^verbatim>\<open>c{0,}\<close>, \<^verbatim>\<open>c+\<close> is \<^verbatim>\<open>c{1,}\<close>, a literal character is \<^verbatim>\<open>c{1,1}\<close>),
  which may be the capturing group of the pattern.
\<close>

datatype cls = Digit | AlnumCI | ColonSpace | Lit char

fun in_cls :: "cls \<Rightarrow> char \<Rightarrow> bool" where
  "in_cls Digit c = is_digit c"
| "in_cls AlnumCI c = (is_digit c \<or> is_alpha c)"
| "in_cls ColonSpace c = (c = CHR '':'' \<or> is_space c)"
| "in_cls (Lit x) c = ci_eq x c"

datatype atom = WordB | Rep bool cls nat "nat option"

text \<open>The first alternative that succeeds, in the order of the list.\<close>

primrec first_some :: "('a \<Rightarrow> 'b option) \<Rightarrow> 'a list \<Rightarrow> 'b option" where
  "first_some f [] = None"
| "first_some f (x # xs) = (case f x of Some y \<Rightarrow> Some y | None \<Rightarrow> first_some f xs)"

text \<open>
  A position in the text is the character before it (\<open>None\<close> at the start) and the
  text from it on. \<^verbatim>\<open>\b\<close> holds where exactly one of the two neighbours is a word
  character.
\<close>

definition word_opt :: "char option \<Rightarrow> bool" where
  "word_opt c = (case c of None \<Rightarrow> False | Some x \<Rightarrow> is_word x)"

definition at_boundary :: "char option \<Rightarrow> string \<Rightarrow> bool" where
  "at_boundary prev s = (word_opt prev \<noteq> word_opt (case s of [] \<Rightarrow> None | c # _ \<Rightarrow> Some c))"

definition prev_after :: "char option \<Rightarrow> string \<Rightarrow> char option" where
  "prev_after prev m = (if m = [] then prev else Some (last m))"

text \<open>
  The backtracking matcher at one position: the matched text and the text of the
  group, if the pattern has one. A repetition first takes as many characters as it can
  (up to its bound) and gives them back one at a time while the rest of the pattern
  fails.
\<close>

primrec match_here :: "atom list \<Rightarrow> char option \<Rightarrow> string \<Rightarrow> (string \<times> string option) option" where
  "match_here [] prev s = Some ([], None)"
| "match_here (a # as) prev s =
     (case a of
        WordB \<Rightarrow> if at_boundary prev s then match_here as prev s else None
      | Rep cap c lo hi \<Rightarrow>
          (let avail = length (takeWhile (in_cls c) s);
               most = (case hi of None \<Rightarrow> avail | Some h \<Rightarrow> min h avail)
           in first_some
                (\<lambda>k. case match_here as (prev_after prev (take k s)) (drop k s) of
                       None \<Rightarrow> None
                     | Some (m, g) \<Rightarrow>
                         Some (take k s @ m, if cap then Some (take k s) else g))
                (rev [lo..<Suc most])))"

text \<open>What \<^verbatim>\<open>re.findall\<close> lists for a match: the group if there is one, else the match.\<close>

definition listed :: "string \<times> string option \<Rightarrow> string" where
  "listed r = (case snd r of Some g \<Rightarrow> g | None \<Rightarrow> fst r)"

text \<open>
  \<^verbatim>\<open>re.findall\<close>: the matches from left to right, each search starting where the
  previous match ended (one character further after an empty match or no match).
\<close>

function findall_from :: "atom list \<Rightarrow> char option \<Rightarrow> string \<Rightarrow> string list" where
  "findall_from p prev [] =
     (case match_here p prev [] of None \<Rightarrow> [] | Some r \<Rightarrow> [listed r])"
| "findall_from p prev (c # cs) =
     (case match_here p prev (c # cs) of
        None \<Rightarrow> findall_from p (Some c) cs
      | Some r \<Rightarrow>
          listed r #
            (if fst r = [] then findall_from p (Some c) cs
             else findall_from p (Some (last (fst r))) (drop (length (fst r)) (c # cs))))"
  by pat_completeness auto
termination
  by (relation "measure (\<lambda>(p, prev, s). length s)") auto

definition findall :: "atom list \<Rightarrow> string \<Rightarrow> string list" where
  "findall p text = findall_from p None text"

text \<open>The patterns of lines 52 to 60, in the order of the source.\<close>

definition bare :: "cls \<Rightarrow> atom list" where
  "bare c = [WordB, Rep False c 4 (Some 8), WordB]"

definition labeled :: "string \<Rightarrow> atom list" where
  "labeled l =
     map (\<lambda>x. Rep False (Lit x) 1 (Some 1)) l
       @ [Rep False ColonSpace 0 None, Rep True Digit 1 None]"

definition otp_patterns :: "atom list list" where
  "otp_patterns =
     [bare Digit,
      bare AlnumCI,
      labeled ''verification code'',
      labeled ''your code'',
      labeled ''otp'',
      labeled ''code'',
      labeled ''pin'']"

text \<open>
  \<^verbatim>\<open>extract_otp\<close>: the first match of the first pattern that has one. A pattern has
  at most one group, so \<^verbatim>\<open>re.findall\<close> lists strings and the \<^verbatim>\<open>tuple\<close> branch
  of the source is never taken.
\<close>

definition extract_otp :: "string \<Rightarrow> string option" where
  "extract_otp text =
     first_some (\<lambda>pattern. case findall pattern text of [] \<Rightarrow> None | first # _ \<Rightarrow> Some first)
       otp_patterns"

text \<open>
  Whether \<^verbatim>\<open>handle_message\<close> sends an announcement for a message with the text
  \<open>message_text\<close> that arrives in the chat \<open>chat_id\<close>, when the bot is configured for
  the chat \<open>own_chat_id\<close>.
\<close>

definition handle_message_announces :: "string \<Rightarrow> string \<Rightarrow> string \<Rightarrow> bool" where
  "handle_message_announces own_chat_id chat_id message_text =
     (message_text \<noteq> [] \<and> chat_id = own_chat_id
      \<and> (case extract_otp message_text of None \<Rightarrow> False | Some otp \<Rightarrow> otp \<noteq> []))"

section \<open>Formatter: phone masking\<close>

text \<open>\<^verbatim>\<open>re.sub(r"\D", "", s)\<close>: the digits of \<open>s\<close>, in order.\<close>

definition strip_non_digits :: "string \<Rightarrow> string" where
  "strip_non_digits s = filter is_digit s"

text \<open>
  \<^verbatim>\<open>format_phone_number\<close> (inbound path). The slice \<^verbatim>\<open>digits[-3:]\<close> is taken of a
  string of at least six characters, so it is its last three.
\<close>

definition format_phone_number :: "string \<Rightarrow> string" where
  "format_phone_number phone_number =
     (if phone_number = [] then ''Unknown''
      else let digits = strip_non_digits phone_number in
        if length digits < 6 then phone_number
        else take 3 digits @ ''*****'' @ drop (length digits - 3) digits)"

text \<open>
  \<^verbatim>\<open>mask_number\<close> (upstream path), the local function of
  \<^verbatim>\<open>send_success_numbers_to_group\<close>, on the string \<^verbatim>\<open>str(num)\<close>.
\<close>

definition mask_number :: "string \<Rightarrow> string" where
  "mask_number num =
     (let clean = strip_non_digits num in
        if length clean > 6 then take 5 clean @ ''*****'' @ drop (length clean - 3) clean
        else if clean = [] then ''N/A'' else clean)"

text \<open>The \<^verbatim>\<open>+\<close> prefix put before the masked number of an upstream announcement.\<close>

definition plus_prefix :: "string \<Rightarrow> string" where
  "plus_prefix masked_phone =
     (if masked_phone \<noteq> [] \<and> \<not> prefix ''+'' masked_phone then ''+'' @ masked_phone
      else masked_phone)"

text \<open>
  What "preserve the first \<open>k\<close> and the last three digits and hide everything between"
  says of an output \<open>out\<close> for the digits \<open>ds\<close>: \<open>out\<close> starts with the first \<open>k\<close>
  digits, ends with the last three, and every character between the two blocks is the
  mask glyph.
\<close>

definition masked_between :: "nat \<Rightarrow> string \<Rightarrow> string \<Rightarrow> bool" where
  "masked_between k ds out =
     (k + 3 < length out \<and>
      take k out = take k ds \<and>
      drop (length out - 3) out = drop (length ds - 3) ds \<and>
      list_all (\<lambda>c. c = CHR ''*'') (take (length out - 3 - k) (drop k out)))"

section \<open>Formatter: time rendering\<close>

text \<open>
  The fields of a \<^verbatim>\<open>datetime\<close> that \<^verbatim>\<open>strftime("%d-%m-%Y %I:%M:%S %p")\<close> prints.
  Microseconds and the UTC offset are parsed and checked but not kept: adding a
  \<^verbatim>\<open>timedelta\<close> leaves both as they are and the format prints neither.
\<close>

record datetime =
  year :: nat
  month :: nat
  day :: nat
  hour :: nat
  minute :: nat
  second :: nat

definition is_leap :: "nat \<Rightarrow> bool" where
  "is_leap y = (y mod 4 = 0 \<and> (y mod 100 \<noteq> 0 \<or> y mod 400 = 0))"

definition days_in_month :: "nat \<Rightarrow> nat \<Rightarrow> nat" where
  "days_in_month y m =
     (if m = 2 then (if is_leap y then 29 else 28)
      else if m = 4 \<or> m = 6 \<or> m = 9 \<or> m = 11 then 30 else 31)"

definition digit_val :: "char \<Rightarrow> nat" where
  "digit_val c = of_char c - 48"

definition num :: "string \<Rightarrow> nat option" where
  "num s = (if s \<noteq> [] \<and> list_all is_digit s
            then Some (foldl (\<lambda>a c. 10 * a + digit_val c) 0 s) else None)"

text \<open>\<^verbatim>\<open>YYYY-MM-DD\<close>, with year 1 to 9999 and a day that exists in the month.\<close>

definition parse_date :: "string \<Rightarrow> (nat \<times> nat \<times> nat) option" where
  "parse_date d =
     (if length d \<noteq> 10 \<or> d ! 4 \<noteq> CHR ''-'' \<or> d ! 7 \<noteq> CHR ''-'' then None
      else case (num (take 4 d), num (take 2 (drop 5 d)), num (drop 8 d)) of
        (Some y, Some m, Some dd) \<Rightarrow>
          if 1 \<le> y \<and> 1 \<le> m \<and> m \<le> 12 \<and> 1 \<le> dd \<and> dd \<le> days_in_month y m
          then Some (y, m, dd) else None
      | _ \<Rightarrow> None)"

text \<open>\<^verbatim>\<open>HH[:MM[:SS[.fff[fff]]]]\<close>.\<close>

definition parse_clock :: "string \<Rightarrow> (nat \<times> nat \<times> nat) option" where
  "parse_clock t =
     (let n = length t in
      if n \<noteq> 2 \<and> n \<noteq> 5 \<and> n \<noteq> 8 \<and> n \<noteq> 12 \<and> n \<noteq> 15 then None
      else if (5 \<le> n \<and> t ! 2 \<noteq> CHR '':'') \<or> (8 \<le> n \<and> t ! 5 \<noteq> CHR '':'')
              \<or> (12 \<le> n \<and> t ! 8 \<noteq> CHR ''.'') then None
      else case (num (take 2 t),
                 if 5 \<le> n then num (take 2 (drop 3 t)) else Some 0,
                 if 8 \<le> n then num (take 2 (drop 6 t)) else Some 0,
                 if 12 \<le> n then num (drop 9 t) else Some 0) of
        (Some h, Some m, Some s, Some f) \<Rightarrow>
          if h < 24 \<and> m < 60 \<and> s < 60 then Some (h, m, s) else None
      | _ \<Rightarrow> None)"

text \<open>
  The offset after its sign, \<^verbatim>\<open>HH:MM[:SS[.ffffff]]\<close>: accepted when it is shorter
  than 24 hours (the bound of \<^verbatim>\<open>timezone\<close>).
\<close>

definition offset_ok :: "string \<Rightarrow> bool" where
  "offset_ok z =
     (let n = length z in
      if n \<noteq> 5 \<and> n \<noteq> 8 \<and> n \<noteq> 15 then False
      else if z ! 2 \<noteq> CHR '':'' \<or> (8 \<le> n \<and> z ! 5 \<noteq> CHR '':'')
              \<or> (15 \<le> n \<and> z ! 8 \<noteq> CHR ''.'') then False
      else case (num (take 2 z), num (take 2 (drop 3 z)),
                 if 8 \<le> n then num (take 2 (drop 6 z)) else Some 0,
                 if 15 \<le> n then num (drop 9 z) else Some 0) of
        (Some h, Some m, Some s, Some f) \<Rightarrow> h * 3600 + m * 60 + s < 86400
      | _ \<Rightarrow> False)"

text \<open>
  \<^verbatim>\<open>datetime.fromisoformat\<close> is library code. The model is its grammar in Python 3.7
  to 3.10, the output format of \<^verbatim>\<open>isoformat()\<close>:
  \<^verbatim>\<open>YYYY-MM-DD[*HH[:MM[:SS[.fff[fff]]]][+HH:MM[:SS[.ffffff]]]]\<close>, where \<^verbatim>\<open>*\<close> is any
  single character. Every later version accepts these strings with the same result;
  Python 3.11 and later accept more forms of ISO 8601 (basic format, week dates, other
  fraction lengths), which this model rejects. The function that uses the parser
  therefore takes it as a parameter, and what is proved of it in general holds of every
  parser.
\<close>

definition fromisoformat :: "string \<Rightarrow> datetime option" where
  "fromisoformat s =
     (case parse_date (take 10 s) of
        None \<Rightarrow> None
      | Some (y, m, d) \<Rightarrow>
          if length s = 10
          then Some \<lparr>year = y, month = m, day = d, hour = 0, minute = 0, second = 0\<rparr>
          else
            let t = drop 11 s;
                clock = takeWhile (\<lambda>c. c \<noteq> CHR ''+'' \<and> c \<noteq> CHR ''-'') t;
                off = dropWhile (\<lambda>c. c \<noteq> CHR ''+'' \<and> c \<noteq> CHR ''-'') t
            in case parse_clock clock of
                 None \<Rightarrow> None
               | Some (h, mi, sec) \<Rightarrow>
                   if off = [] \<or> offset_ok (tl off)
                   then Some \<lparr>year = y, month = m, day = d,
                              hour = h, minute = mi, second = sec\<rparr>
                   else None)"

text \<open>\<^verbatim>\<open>time_str.replace("Z", "+00:00")\<close>: every \<^verbatim>\<open>Z\<close> of the string is replaced.\<close>

definition replace_Z :: "string \<Rightarrow> string" where
  "replace_Z s = concat (map (\<lambda>c. if c = CHR ''Z'' then ''+00:00'' else [c]) s)"

text \<open>
  \<^verbatim>\<open>dt + timedelta(hours=6)\<close>: the wall-clock time six hours later, with the
  \<^verbatim>\<open>OverflowError\<close> of a result after year 9999 as \<open>None\<close>.
\<close>

definition next_day :: "datetime \<Rightarrow> datetime option" where
  "next_day dt =
     (if day dt < days_in_month (year dt) (month dt) then Some (dt\<lparr>day := day dt + 1\<rparr>)
      else if month dt < 12 then Some (dt\<lparr>month := month dt + 1, day := 1\<rparr>)
      else if year dt < 9999 then Some (dt\<lparr>year := year dt + 1, month := 1, day := 1\<rparr>)
      else None)"

definition add_six_hours :: "datetime \<Rightarrow> datetime option" where
  "add_six_hours dt =
     (if hour dt + 6 < 24 then Some (dt\<lparr>hour := hour dt + 6\<rparr>)
      else next_day (dt\<lparr>hour := hour dt + 6 - 24\<rparr>))"

definition digit_char :: "nat \<Rightarrow> char" where
  "digit_char n = ''0123456789'' ! (n mod 10)"

definition pad2 :: "nat \<Rightarrow> string" where
  "pad2 n = [digit_char (n div 10), digit_char n]"

function decimal :: "nat \<Rightarrow> string" where
  "decimal n = (if n < 10 then [digit_char n] else decimal (n div 10) @ [digit_char n])"
  by pat_completeness auto
termination
  by (relation "measure id") auto

declare decimal.simps [simp del]

text \<open>
  \<^verbatim>\<open>strftime("%d-%m-%Y %I:%M:%S %p")\<close> in the C locale. \<^verbatim>\<open>%Y\<close> is the year in
  decimal: the C library of a Linux host prints a year below 1000 without leading
  zeros.
\<close>

definition strftime :: "datetime \<Rightarrow> string" where
  "strftime dt =
     pad2 (day dt) @ ''-'' @ pad2 (month dt) @ ''-'' @ decimal (year dt) @ '' ''
     @ pad2 (if hour dt mod 12 = 0 then 12 else hour dt mod 12) @ '':''
     @ pad2 (minute dt) @ '':'' @ pad2 (second dt) @ '' ''
     @ (if hour dt < 12 then ''AM'' else ''PM'')"

text \<open>
  The time of an upstream announcement, lines 175 to 183 of the source, for the parser
  \<open>parse\<close>: an empty or \<^verbatim>\<open>N/A\<close> value is passed through, and so is the raw string
  when anything in the \<^verbatim>\<open>try\<close> block raises.
\<close>

definition render_time :: "(string \<Rightarrow> datetime option) \<Rightarrow> string \<Rightarrow> string" where
  "render_time parse time_str =
     (if time_str \<noteq> [] \<and> time_str \<noteq> ''N/A'' then
        (case parse (replace_Z time_str) of
           None \<Rightarrow> time_str
         | Some dt \<Rightarrow>
             (case add_six_hours dt of
                None \<Rightarrow> time_str
              | Some bd_time \<Rightarrow> strftime bd_time))
      else time_str)"

definition formatted_time :: "string \<Rightarrow> string" where
  "formatted_time time_str = render_time fromisoformat time_str"

section \<open>Upstream records, the ledger and the bot\<close>

text \<open>
  The value of the \<^verbatim>\<open>id\<close> key of an upstream record, as the JSON decoder delivers
  it (floating-point numbers apart).
\<close>

datatype json =
    JNull
  | JBool bool
  | JInt int
  | JStr string
  | JArray "json list"
  | JObject "(string \<times> json) list"

text \<open>Python's truth value: \<^verbatim>\<open>if nid\<close>.\<close>

fun truthy :: "json \<Rightarrow> bool" where
  "truthy JNull = False"
| "truthy (JBool b) = b"
| "truthy (JInt n) = (n \<noteq> 0)"
| "truthy (JStr s) = (s \<noteq> [])"
| "truthy (JArray xs) = (xs \<noteq> [])"
| "truthy (JObject kvs) = (kvs \<noteq> [])"

text \<open>Lists and dicts are unhashable: a set operation on one raises \<^verbatim>\<open>TypeError\<close>.\<close>

fun hashable :: "json \<Rightarrow> bool" where
  "hashable (JArray xs) = False"
| "hashable (JObject kvs) = False"
| "hashable v = True"

text \<open>
  A Python set holds its elements up to \<^verbatim>\<open>==\<close>, and \<^verbatim>\<open>True == 1\<close>,
  \<^verbatim>\<open>False == 0\<close> with equal hashes: the ledger is modelled as the set of the keys
  \<open>set_key v\<close> of its elements.
\<close>

fun set_key :: "json \<Rightarrow> json" where
  "set_key (JBool b) = JInt (if b then 1 else 0)"
| "set_key v = v"

text \<open>
  An upstream record, with the fields the code reads. A field is \<open>None\<close> when the key
  is absent from the dict; the text fields are strings, as the data model has them.
\<close>

record upstream_record =
  rec_id :: "json option"
  receivedAt :: "string option"
  country :: "string option"
  phoneNumber :: "string option"
  otpCode :: "string option"
  service :: "string option"
  fullMessage :: "string option"

text \<open>\<^verbatim>\<open>n.get("id")\<close> and \<^verbatim>\<open>number.get(key, "N/A")\<close>.\<close>

definition get_id :: "upstream_record \<Rightarrow> json" where
  "get_id n = (case rec_id n of None \<Rightarrow> JNull | Some v \<Rightarrow> v)"

definition get_or_na :: "string option \<Rightarrow> string" where
  "get_or_na field = (case field of None \<Rightarrow> ''N/A'' | Some v \<Rightarrow> v)"

text \<open>
  The variable parts of the text of an upstream announcement, in the order of the
  f-string of lines 201 to 208; the layout around them is fixed.
\<close>

record announcement =
  ann_service :: string
  ann_number :: string
  ann_otp :: string
  ann_country :: string
  ann_time :: string
  ann_full_message :: string

text \<open>The body of the delivery loop up to the call of \<^verbatim>\<open>send_message\<close>.\<close>

definition build_announcement :: "upstream_record \<Rightarrow> announcement" where
  "build_announcement number =
     \<lparr>ann_service = get_or_na (service number),
      ann_number = plus_prefix (mask_number (get_or_na (phoneNumber number))),
      ann_otp = get_or_na (otpCode number),
      ann_country = get_or_na (country number),
      ann_time = formatted_time (get_or_na (receivedAt number)),
      ann_full_message = get_or_na (fullMessage number)\<rparr>"

text \<open>
  The state of the bot that the polling cycle reads and writes: the API key, whether
  \<^verbatim>\<open>start_time\<close> is set, and the ledger \<^verbatim>\<open>sent_numbers\<close>.
\<close>

record bot =
  api_key :: string
  started :: bool
  sent_numbers :: "json set"

text \<open>
  The answer of the upstream API to one request: a transport error (or a body that is
  not the expected JSON), or a status code with the list under
  \<^verbatim>\<open>data.numbers\<close> (empty when a key is absent).
\<close>

datatype upstream_response = Transport_error | Response nat "upstream_record list"

definition numbers_of :: "upstream_response \<Rightarrow> upstream_record list" where
  "numbers_of resp =
     (case resp of
        Transport_error \<Rightarrow> []
      | Response status numbers \<Rightarrow> if status = 200 then numbers else [])"

definition get_recent_success_numbers :: "bot \<Rightarrow> upstream_response \<Rightarrow> upstream_record list" where
  "get_recent_success_numbers b resp = (if api_key b = [] then [] else numbers_of resp)"

definition get_recent_success_numbers_after_start ::
  "bot \<Rightarrow> upstream_response \<Rightarrow> upstream_record list" where
  "get_recent_success_numbers_after_start b resp =
     (if \<not> started b then get_recent_success_numbers b resp else numbers_of resp)"

text \<open>What the \<^verbatim>\<open>except\<close> clause of the cycle catches and logs.\<close>

datatype error = TypeError | SendError

text \<open>
  The filtering loop, lines 165 to 170: the records kept so far, the ledger so far, and
  the error that ended the loop, if any. The ledger is updated in place, so what was
  added before an error stays.
\<close>

fun filter_new ::
  "upstream_record list \<Rightarrow> upstream_record list \<Rightarrow> json set
     \<Rightarrow> error option \<times> upstream_record list \<times> json set" where
  "filter_new [] new sent = (None, new, sent)"
| "filter_new (n # ns) new sent =
     (let nid = get_id n in
        if \<not> truthy nid then filter_new ns new sent
        else if \<not> hashable nid then (Some TypeError, new, sent)
        else if set_key nid \<in> sent then filter_new ns new sent
        else filter_new ns (new @ [n]) (insert (set_key nid) sent))"

text \<open>
  The delivery loop, lines 174 to 226, over a transport \<open>send\<close> with a state of its own:
  \<open>send w a\<close> is the state after the call and whether \<^verbatim>\<open>send_message\<close> returned
  (\<open>True\<close>) or raised. The loop has no handler of its own: the first failure leaves it.
  The result is the transport's state, the announcements sent, and the error.
\<close>

fun deliver ::
  "('w \<Rightarrow> announcement \<Rightarrow> 'w \<times> bool) \<Rightarrow> 'w \<Rightarrow> upstream_record list
     \<Rightarrow> 'w \<times> announcement list \<times> error option" where
  "deliver send w [] = (w, [], None)"
| "deliver send w (number # rest) =
     (let a = build_announcement number; (w', ok) = send w a in
        if ok then
          (let (w'', sent, e) = deliver send w' rest in (w'', a # sent, e))
        else (w', [], Some SendError))"

text \<open>
  One polling cycle, \<^verbatim>\<open>send_success_numbers_to_group\<close>, for the answer \<open>resp\<close> of
  the upstream API: the bot afterwards, the transport afterwards, the announcements
  sent, and the error logged by the \<^verbatim>\<open>except\<close> clause, if any.
\<close>

definition send_success_numbers_to_group ::
  "('w \<Rightarrow> announcement \<Rightarrow> 'w \<times> bool) \<Rightarrow> bot \<Rightarrow> 'w \<Rightarrow> upstream_response
     \<Rightarrow> bot \<times> 'w \<times> announcement list \<times> error option" where
  "send_success_numbers_to_group send b w resp =
     (let numbers = get_recent_success_numbers_after_start b resp in
        if numbers = [] then (b, w, [], None)
        else
          (case filter_new numbers [] (sent_numbers b) of
             (Some e, new, sent) \<Rightarrow> (b\<lparr>sent_numbers := sent\<rparr>, w, [], Some e)
           | (None, new, sent) \<Rightarrow>
               if new = [] then (b\<lparr>sent_numbers := sent\<rparr>, w, [], None)
               else
                 (let (w', out, e) = deliver send w new
                  in (b\<lparr>sent_numbers := sent\<rparr>, w', out, e))))"

text \<open>The ledger, the announcements and the logged error of a cycle's result.\<close>

definition ledger_after :: "bot \<times> 'w \<times> announcement list \<times> error option \<Rightarrow> json set" where
  "ledger_after r = sent_numbers (fst r)"

definition dispatched :: "bot \<times> 'w \<times> announcement list \<times> error option \<Rightarrow> announcement list" where
  "dispatched r = fst (snd (snd r))"

definition logged :: "bot \<times> 'w \<times> announcement list \<times> error option \<Rightarrow> error option" where
  "logged r = snd (snd (snd r))"

text \<open>The key under which a record's id is held in the ledger.\<close>

definition record_key :: "upstream_record \<Rightarrow> json" where
  "record_key n = set_key (get_id n)"

text \<open>
  The records the filtering loop of a cycle keeps (the list \<^verbatim>\<open>new\<close>), in the order
  in which it appended them.
\<close>

definition kept :: "bot \<Rightarrow> upstream_response \<Rightarrow> upstream_record list" where
  "kept b resp =
     fst (snd (filter_new (get_recent_success_numbers_after_start b resp) [] (sent_numbers b)))"

subsection \<open>Example inputs\<close>

text \<open>
  A record that has only the id \<open>i\<close>, a started bot with an empty ledger, and three
  transports: one that accepts every announcement, one that rejects every announcement,
  and one that counts its calls and rejects call number \<open>k\<close> (from 0).
\<close>

definition rec_with_id :: "string \<Rightarrow> upstream_record" where
  "rec_with_id i =
     \<lparr>rec_id = Some (JStr i), receivedAt = None, country = None, phoneNumber = None,
      otpCode = None, service = None, fullMessage = None\<rparr>"

definition example_bot :: bot where
  "example_bot = \<lparr>api_key = ''key'', started = True, sent_numbers = {}\<rparr>"

definition always_ok :: "unit \<Rightarrow> announcement \<Rightarrow> unit \<times> bool" where
  "always_ok w a = (w, True)"

definition always_fails :: "unit \<Rightarrow> announcement \<Rightarrow> unit \<times> bool" where
  "always_fails w a = (w, False)"

definition fails_at :: "nat \<Rightarrow> nat \<Rightarrow> announcement \<Rightarrow> nat \<times> bool" where
  "fails_at k w a = (Suc w, w \<noteq> k)"

section \<open>Masking: theorems\<close>

lemma strip_non_digits_12345: "strip_non_digits ''12345'' = ''12345''"
  by (simp add: strip_non_digits_def is_digit_def)

text \<open>
  C5, as stated, fails: the inbound function masks a number of exactly six digits (its
  threshold is "fewer than six"), and the upstream function keeps the first five digits
  of an eleven-digit number, not the first three.
\<close>

theorem mask_phone_counterexample:
  "format_phone_number ''123456'' = ''123*****456'' \<and>
   mask_number ''15551234567'' = ''15551*****567''"
  by (simp add: format_phone_number_def mask_number_def strip_non_digits_def is_digit_def)

text \<open>
  C5 (amended): \<^verbatim>\<open>format_phone_number\<close> returns \<^verbatim>\<open>Unknown\<close> for the empty string,
  the raw string itself when it has fewer than six digits, and otherwise the first three
  digits, five mask glyphs and the last three digits; \<^verbatim>\<open>mask_number\<close> strips the
  non-digits and returns the digits unmasked when there are at most six (\<^verbatim>\<open>N/A\<close> when
  there is none), and otherwise the first five digits, five mask glyphs and the last
  three digits. In particular the inbound function maps \<^verbatim>\<open>12345\<close> to itself and
  \<^verbatim>\<open>15551234567\<close> to \<^verbatim>\<open>155*****567\<close>.
\<close>

theorem mask_phone_amended:
  fixes raw :: string
  defines "ds \<equiv> strip_non_digits raw"
  shows "(raw \<noteq> [] \<and> length ds < 6 \<longrightarrow> format_phone_number raw = raw)
       \<and> (6 \<le> length ds \<longrightarrow>
            format_phone_number raw = take 3 ds @ ''*****'' @ drop (length ds - 3) ds)
       \<and> (ds \<noteq> [] \<and> length ds \<le> 6 \<longrightarrow> mask_number raw = ds)
       \<and> (ds = [] \<longrightarrow> mask_number raw = ''N/A'')
       \<and> (6 < length ds \<longrightarrow>
            mask_number raw = take 5 ds @ ''*****'' @ drop (length ds - 3) ds)
       \<and> format_phone_number [] = ''Unknown''
       \<and> format_phone_number ''12345'' = ''12345''
       \<and> format_phone_number ''15551234567'' = ''155*****567''"
proof -
  have ne: "6 \<le> length ds \<Longrightarrow> raw \<noteq> []"
    by (auto simp: ds_def strip_non_digits_def)
  have ex: "format_phone_number ''15551234567'' = ''155*****567''"
    by (simp add: format_phone_number_def strip_non_digits_def is_digit_def)
  show ?thesis
    using ne ex
    by (auto simp: format_phone_number_def mask_number_def Let_def ds_def
        strip_non_digits_12345)
qed

theorem mask_phone_amended_witness:
  "format_phone_number ''+1 23'' = ''+1 23''
   \<and> format_phone_number ''+1 (555) 123-4567'' = ''155*****567''
   \<and> mask_number ''+1 23'' = ''123''
   \<and> mask_number ''n/a'' = ''N/A''
   \<and> mask_number ''+1 (555) 123-4567'' = ''15551*****567''"
  using mask_phone_amended [of "''+1 23''"] mask_phone_amended [of "''n/a''"]
    mask_phone_amended [of "''+1 (555) 123-4567''"]
  by (simp add: strip_non_digits_def is_digit_def)

text \<open>
  C6: for a phone string with more than six digits, both masking functions keep a
  leading block of at least three digits (three on the inbound path, five on the
  upstream path) and the last three digits, and every character of the output between
  the two blocks is a mask glyph.
\<close>

theorem masking_hides_between:
  assumes "6 < length (strip_non_digits raw)"
  shows "masked_between 3 (strip_non_digits raw) (format_phone_number raw)
       \<and> masked_between 5 (strip_non_digits raw) (mask_number raw)"
proof -
  have ne: "raw \<noteq> []"
    using assms by (auto simp: strip_non_digits_def)
  show ?thesis
    using assms ne
    by (simp add: masked_between_def format_phone_number_def mask_number_def Let_def)
qed

theorem masking_hides_between_witness:
  "masked_between 3 ''15551234567'' (format_phone_number ''+1 (555) 123-4567'')
   \<and> masked_between 5 ''15551234567'' (mask_number ''+1 (555) 123-4567'')"
  using masking_hides_between [of "''+1 (555) 123-4567''"]
  by (simp add: strip_non_digits_def is_digit_def)

section \<open>Time rendering: theorems\<close>

lemma num_examples:
  "num ''2024'' = Some 2024" "num ''9999'' = Some 9999" "num ''01'' = Some 1"
  "num ''10'' = Some 10" "num ''00'' = Some 0" "num ''12'' = Some 12" "num ''31'' = Some 31"
  "num ''23'' = Some 23" "num ''not-'' = None"
  by (simp_all add: num_def is_digit_def digit_val_def)

lemma pad2_examples:
  "pad2 0 = ''00''" "pad2 1 = ''01''" "pad2 4 = ''04''" "decimal 2024 = ''2024''"
  by (simp_all add: pad2_def digit_char_def decimal.simps)

lemma parse_example:
  "fromisoformat (replace_Z ''2024-01-01T10:00:00Z'')
     = Some \<lparr>year = 2024, month = 1, day = 1, hour = 10, minute = 0, second = 0\<rparr>"
  by (simp add: replace_Z_def fromisoformat_def parse_date_def parse_clock_def offset_ok_def
      num_examples days_in_month_def is_leap_def Let_def)

lemma parse_overflow_example:
  "fromisoformat (replace_Z ''9999-12-31T23:00:00Z'')
     = Some \<lparr>year = 9999, month = 12, day = 31, hour = 23, minute = 0, second = 0\<rparr>"
  by (simp add: replace_Z_def fromisoformat_def parse_date_def parse_clock_def offset_ok_def
      num_examples days_in_month_def is_leap_def Let_def)

lemma parse_failure_example: "fromisoformat (replace_Z ''not-a-date'') = None"
  by (simp add: replace_Z_def fromisoformat_def parse_date_def num_examples)

lemma add_six_hours_None_iff:
  "add_six_hours dt = None \<longleftrightarrow>
     18 \<le> hour dt \<and> days_in_month (year dt) (month dt) \<le> day dt \<and> 12 \<le> month dt
       \<and> 9999 \<le> year dt"
  by (auto simp: add_six_hours_def next_day_def)

text \<open>
  C7, as stated, fails: \<^verbatim>\<open>9999-12-31T23:00:00Z\<close> is parsed, but six hours later is
  after year 9999, the addition raises \<^verbatim>\<open>OverflowError\<close>, and the handler returns
  the raw string instead of a rendered time.
\<close>

theorem render_time_counterexample:
  "fromisoformat (replace_Z ''9999-12-31T23:00:00Z'')
     = Some \<lparr>year = 9999, month = 12, day = 31, hour = 23, minute = 0, second = 0\<rparr>
   \<and> formatted_time ''9999-12-31T23:00:00Z'' = ''9999-12-31T23:00:00Z''"
  by (simp add: parse_overflow_example formatted_time_def render_time_def add_six_hours_def
      next_day_def days_in_month_def)

text \<open>
  C7 (amended): for every \<^verbatim>\<open>receivedAt\<close> string and every parser, the time is parsed
  after each \<^verbatim>\<open>Z\<close> is replaced by \<^verbatim>\<open>+00:00\<close>; on a parse failure the raw string
  is returned; on success the time six hours later is rendered as
  \<^verbatim>\<open>DD-MM-YYYY hh:mm:ss AM/PM\<close>, unless that time is after year 9999 (18:00 or later
  on 31 December 9999), in which case the raw string is returned too. No exception
  escapes. \<^verbatim>\<open>2024-01-01T10:00:00Z\<close> yields \<^verbatim>\<open>01-01-2024 04:00:00 PM\<close> and
  \<^verbatim>\<open>not-a-date\<close> yields itself.
\<close>

theorem render_time_amended:
  "(parse (replace_Z time_str) = None \<longrightarrow> render_time parse time_str = time_str)
   \<and> (time_str \<noteq> [] \<and> time_str \<noteq> ''N/A'' \<and> parse (replace_Z time_str) = Some dt \<longrightarrow>
        (case add_six_hours dt of
           Some bd_time \<Rightarrow> render_time parse time_str = strftime bd_time
         | None \<Rightarrow> render_time parse time_str = time_str))
   \<and> (add_six_hours dt = None \<longleftrightarrow>
        18 \<le> hour dt \<and> days_in_month (year dt) (month dt) \<le> day dt \<and> 12 \<le> month dt
          \<and> 9999 \<le> year dt)
   \<and> formatted_time ''2024-01-01T10:00:00Z'' = ''01-01-2024 04:00:00 PM''
   \<and> formatted_time ''not-a-date'' = ''not-a-date''"
proof -
  have a: "formatted_time ''2024-01-01T10:00:00Z'' = ''01-01-2024 04:00:00 PM''"
    by (simp add: formatted_time_def render_time_def parse_example add_six_hours_def
        strftime_def pad2_examples pad2_def digit_char_def)
  have b: "formatted_time ''not-a-date'' = ''not-a-date''"
    by (simp add: formatted_time_def render_time_def parse_failure_example)
  show ?thesis
    using a b add_six_hours_None_iff [of dt]
    by (auto simp: render_time_def split: option.splits)
qed

text \<open>Witness for C7 (amended): a time whose shift crosses the end of a year.\<close>

theorem render_time_amended_witness:
  "formatted_time ''2024-12-31T18:30:05'' = ''01-01-2025 12:30:05 AM''"
  using render_time_amended [of fromisoformat "''2024-12-31T18:30:05''"
      "\<lparr>year = 2024, month = 12, day = 31, hour = 18, minute = 30, second = 5\<rparr>"]
  by (simp add: formatted_time_def replace_Z_def fromisoformat_def parse_date_def parse_clock_def
      num_def is_digit_def digit_val_def days_in_month_def is_leap_def Let_def
      add_six_hours_def next_day_def strftime_def pad2_def digit_char_def decimal.simps)

section \<open>Reconciliation loop: theorems\<close>

lemma filter_new_spec:
  "filter_new ns new sent = (e, new', sent') \<Longrightarrow>
     \<exists>added. new' = new @ added \<and> subseq added ns
        \<and> sent' = sent \<union> record_key ` set added
        \<and> distinct (map record_key added)
        \<and> (\<forall>n\<in>set added. truthy (get_id n) \<and> hashable (get_id n) \<and> record_key n \<notin> sent)"
proof (induction ns arbitrary: new sent)
  case Nil
  then show ?case by auto
next
  case (Cons n ns)
  let ?nid = "get_id n"
  consider (falsy) "\<not> truthy ?nid"
    | (unhashable) "truthy ?nid" "\<not> hashable ?nid"
    | (seen) "truthy ?nid" "hashable ?nid" "set_key ?nid \<in> sent"
    | (fresh) "truthy ?nid" "hashable ?nid" "set_key ?nid \<notin> sent"
    by blast
  then show ?case
  proof cases
    case falsy
    with Cons.prems have "filter_new ns new sent = (e, new', sent')" by simp
    from Cons.IH [OF this] obtain added where a: "new' = new @ added" "subseq added ns"
      "sent' = sent \<union> record_key ` set added" "distinct (map record_key added)"
      "\<forall>n\<in>set added. truthy (get_id n) \<and> hashable (get_id n) \<and> record_key n \<notin> sent"
      by blast
    then show ?thesis by (intro exI [of _ added]) auto
  next
    case unhashable
    with Cons.prems have "new' = new" "sent' = sent" by simp_all
    then show ?thesis by (intro exI [of _ "[]"]) auto
  next
    case seen
    with Cons.prems have "filter_new ns new sent = (e, new', sent')" by simp
    from Cons.IH [OF this] obtain added where a: "new' = new @ added" "subseq added ns"
      "sent' = sent \<union> record_key ` set added" "distinct (map record_key added)"
      "\<forall>n\<in>set added. truthy (get_id n) \<and> hashable (get_id n) \<and> record_key n \<notin> sent"
      by blast
    then show ?thesis by (intro exI [of _ added]) auto
  next
    case fresh
    with Cons.prems have
      "filter_new ns (new @ [n]) (insert (set_key ?nid) sent) = (e, new', sent')" by simp
    from Cons.IH [OF this] obtain added where a: "new' = (new @ [n]) @ added"
      "subseq added ns"
      "sent' = insert (set_key ?nid) sent \<union> record_key ` set added"
      "distinct (map record_key added)"
      "\<forall>m\<in>set added. truthy (get_id m) \<and> hashable (get_id m)
          \<and> record_key m \<notin> insert (set_key ?nid) sent"
      by blast
    moreover have k: "set_key ?nid = record_key n" by (simp add: record_key_def)
    ultimately show ?thesis
      using fresh unfolding k by (intro exI [of _ "n # added"]) auto
  qed
qed

lemma deliver_Cons:
  assumes "send w (build_announcement r) = (wa, ok)" and "deliver send wa rs = (w2, out2, e2)"
  shows "deliver send w (r # rs) =
     (if ok then (w2, build_announcement r # out2, e2) else (wa, [], Some SendError))"
  using assms by simp

lemma deliver_prefix_aux:
  "deliver send w rs = (w', out, e) \<Longrightarrow>
     length out \<le> length rs \<and> map build_announcement (take (length out) rs) = out
       \<and> (e = None \<longleftrightarrow> length out = length rs)
       \<and> (e \<noteq> None \<longrightarrow> e = Some SendError)"
proof (induction rs arbitrary: w w' out e)
  case Nil
  then show ?case by simp
next
  case (Cons r rs)
  obtain wa ok where s: "send w (build_announcement r) = (wa, ok)"
    by (cases "send w (build_announcement r)")
  obtain w2 out2 e2 where d: "deliver send wa rs = (w2, out2, e2)"
    by (cases "deliver send wa rs")
  note u = deliver_Cons [OF s d]
  show ?case
  proof (cases ok)
    case True
    with u Cons.prems have eq: "out = build_announcement r # out2" "e = e2" by simp_all
    from Cons.IH [OF d] show ?thesis unfolding eq by auto
  next
    case False
    with u Cons.prems have eq: "out = []" "e = Some SendError" by simp_all
    show ?thesis unfolding eq by simp
  qed
qed

lemma truthy_set_key: "truthy (set_key v) = truthy v"
  by (cases v) auto

lemma cycle_unfold:
  assumes "filter_new (get_recent_success_numbers_after_start b resp) [] (sent_numbers b) = (e, new, sent)"
    and "deliver send w new = (w2, out2, e2)"
  shows "send_success_numbers_to_group send b w resp =
     (if get_recent_success_numbers_after_start b resp = [] then (b, w, [], None)
      else if e \<noteq> None then (b\<lparr>sent_numbers := sent\<rparr>, w, [], e)
      else if new = [] then (b\<lparr>sent_numbers := sent\<rparr>, w, [], None)
      else (b\<lparr>sent_numbers := sent\<rparr>, w2, out2, e2))"
proof (cases e)
  case None
  with assms show ?thesis by (simp add: send_success_numbers_to_group_def Let_def)
next
  case (Some a)
  with assms show ?thesis by (simp add: send_success_numbers_to_group_def Let_def)
qed

lemma kept_spec:
  "subseq (kept b resp) (get_recent_success_numbers_after_start b resp)
   \<and> distinct (map record_key (kept b resp))
   \<and> (\<forall>n\<in>set (kept b resp). truthy (get_id n) \<and> hashable (get_id n) \<and> record_key n \<notin> sent_numbers b)"
proof -
  obtain e new sent where f:
    "filter_new (get_recent_success_numbers_after_start b resp) [] (sent_numbers b) = (e, new, sent)"
    by (cases "filter_new (get_recent_success_numbers_after_start b resp) [] (sent_numbers b)")
  from filter_new_spec [OF f] f show ?thesis by (auto simp: kept_def)
qed

lemma cycle_ledger:
  "ledger_after (send_success_numbers_to_group send b w resp)
     = sent_numbers b \<union> record_key ` set (kept b resp)"
proof -
  obtain e new sent where f:
    "filter_new (get_recent_success_numbers_after_start b resp) [] (sent_numbers b) = (e, new, sent)"
    by (cases "filter_new (get_recent_success_numbers_after_start b resp) [] (sent_numbers b)")
  obtain w2 out2 e2 where d: "deliver send w new = (w2, out2, e2)" by (cases "deliver send w new")
  from filter_new_spec [OF f] have s: "sent = sent_numbers b \<union> record_key ` set new" by auto
  have kn: "kept b resp = new" using f by (simp add: kept_def)
  show ?thesis
  proof (cases "get_recent_success_numbers_after_start b resp = []")
    case True
    with f have "new = []" by simp
    with True show ?thesis
      unfolding cycle_unfold [OF f d] kn by (simp add: ledger_after_def)
  next
    case False
    then show ?thesis
      unfolding cycle_unfold [OF f d] kn by (simp add: ledger_after_def s)
  qed
qed

lemma cycle_dispatched:
  "\<exists>k\<le>length (kept b resp).
     dispatched (send_success_numbers_to_group send b w resp)
       = map build_announcement (take k (kept b resp))"
proof -
  obtain e new sent where f:
    "filter_new (get_recent_success_numbers_after_start b resp) [] (sent_numbers b) = (e, new, sent)"
    by (cases "filter_new (get_recent_success_numbers_after_start b resp) [] (sent_numbers b)")
  obtain w2 out2 e2 where d: "deliver send w new = (w2, out2, e2)" by (cases "deliver send w new")
  from deliver_prefix_aux [OF d] have k: "length out2 \<le> length new"
    "map build_announcement (take (length out2) new) = out2" by auto
  have kn: "kept b resp = new" using f by (simp add: kept_def)
  show ?thesis
  proof (cases "get_recent_success_numbers_after_start b resp = [] \<or> e \<noteq> None \<or> new = []")
    case True
    then have "dispatched (send_success_numbers_to_group send b w resp) = []"
      unfolding cycle_unfold [OF f d] by (auto simp: dispatched_def)
    then show ?thesis by (intro exI [of _ 0]) simp
  next
    case False
    then have "dispatched (send_success_numbers_to_group send b w resp) = out2"
      unfolding cycle_unfold [OF f d] by (simp add: dispatched_def)
    with k kn show ?thesis by (intro exI [of _ "length out2"]) simp
  qed
qed

lemma fetch_failure_no_change:
  "numbers_of resp = [] \<Longrightarrow> send_success_numbers_to_group send b w resp = (b, w, [], None)"
  by (simp add: send_success_numbers_to_group_def get_recent_success_numbers_after_start_def
      get_recent_success_numbers_def)

lemma filter_new_all_seen:
  "\<forall>n\<in>set ns. truthy (get_id n) \<longrightarrow> record_key n \<in> sent \<Longrightarrow>
     filter_new ns new sent = (None, new, sent) \<or> filter_new ns new sent = (Some TypeError, new, sent)"
  by (induction ns arbitrary: new) (auto simp: record_key_def Let_def)

lemma cycle_fails_example:
  "send_success_numbers_to_group always_fails example_bot () (Response 200 [rec_with_id ''a''])
     = (example_bot\<lparr>sent_numbers := {JStr ''a''}\<rparr>, (), [], Some SendError)"
  by (simp add: send_success_numbers_to_group_def get_recent_success_numbers_after_start_def
      numbers_of_def example_bot_def rec_with_id_def get_id_def always_fails_def Let_def)

text \<open>
  C1, as stated, fails: the id is added to the ledger in the filtering loop, before any
  delivery is attempted. When the only record of a page has the id \<^verbatim>\<open>a\<close> and the
  transport rejects its announcement, nothing is dispatched, the error is logged, and
  \<^verbatim>\<open>a\<close> is in the ledger.
\<close>

theorem marked_seen_counterexample:
  "ledger_after (send_success_numbers_to_group always_fails example_bot ()
       (Response 200 [rec_with_id ''a''])) = {JStr ''a''}
   \<and> dispatched (send_success_numbers_to_group always_fails example_bot ()
       (Response 200 [rec_with_id ''a''])) = []
   \<and> logged (send_success_numbers_to_group always_fails example_bot ()
       (Response 200 [rec_with_id ''a''])) = Some SendError"
  by (simp add: cycle_fails_example ledger_after_def dispatched_def logged_def)

text \<open>
  C1 (amended): in every polling cycle the ledger grows by exactly the ids of the records
  queued for dispatch in that cycle; each of these ids is added once (the ids of the
  queued records are pairwise different and none was in the ledger before), at the
  moment its record is queued and before its dispatch is attempted, so that a delivery
  failure leaves the id marked as seen. A fetch failure (a transport error or a status
  other than 200) leaves the ledger, and the whole state, unchanged.
\<close>

theorem ledger_marks_when_queued:
  "ledger_after (send_success_numbers_to_group send b w resp)
       = sent_numbers b \<union> record_key ` set (kept b resp)
   \<and> distinct (map record_key (kept b resp))
   \<and> (\<forall>n\<in>set (kept b resp). record_key n \<notin> sent_numbers b)
   \<and> send_success_numbers_to_group send b w Transport_error = (b, w, [], None)
   \<and> (status \<noteq> 200 \<longrightarrow>
        send_success_numbers_to_group send b w (Response status page) = (b, w, [], None))"
  using kept_spec [of b resp] cycle_ledger [of send b w resp]
    fetch_failure_no_change [of Transport_error send b w]
    fetch_failure_no_change [of "Response status page" send b w]
  by (simp add: numbers_of_def)

lemma kept_example:
  "kept example_bot (Response 200 [rec_with_id ''a'', rec_with_id ''a'']) = [rec_with_id ''a'']"
  by (simp add: kept_def get_recent_success_numbers_after_start_def
      numbers_of_def example_bot_def rec_with_id_def get_id_def Let_def)

lemma example_bot_ledger: "sent_numbers example_bot = {}"
  by (simp add: example_bot_def)

lemma record_key_rec_with_id: "record_key (rec_with_id i) = JStr i"
  by (simp add: record_key_def rec_with_id_def get_id_def)

text \<open>Witness for C1 (amended): a page that repeats the id \<^verbatim>\<open>a\<close>, and a 503 answer.\<close>

theorem ledger_marks_when_queued_witness:
  "ledger_after (send_success_numbers_to_group always_fails example_bot ()
       (Response 200 [rec_with_id ''a'', rec_with_id ''a''])) = {JStr ''a''}
   \<and> send_success_numbers_to_group always_fails example_bot () (Response 503 [rec_with_id ''a''])
       = (example_bot, (), [], None)"
  using ledger_marks_when_queued [of always_fails example_bot "()"
      "Response 200 [rec_with_id ''a'', rec_with_id ''a'']" 503 "[rec_with_id ''a'']"]
  by (simp add: kept_example record_key_rec_with_id example_bot_ledger)

lemma deliver_all_ok:
  "(\<And>w a. snd (send w a)) \<Longrightarrow>
     fst (snd (deliver send w rs)) = map build_announcement rs \<and> snd (snd (deliver send w rs)) = None"
proof (induction rs arbitrary: w)
  case Nil
  then show ?case by simp
next
  case (Cons r rs)
  obtain wa ok where s: "send w (build_announcement r) = (wa, ok)" by (cases "send w (build_announcement r)")
  with Cons.prems [of w "build_announcement r"] have ok by simp
  obtain w2 out2 e2 where d: "deliver send wa rs = (w2, out2, e2)" by (cases "deliver send wa rs")
  with s \<open>ok\<close> Cons.IH [OF Cons.prems, of wa] show ?case by simp
qed

text \<open>
  C3: for a page of three records with the ids \<^verbatim>\<open>a\<close>, \<^verbatim>\<open>b\<close>, \<^verbatim>\<open>a\<close> and an
  empty ledger, the filtering loop keeps the first record and the second, in that order,
  and marks both ids; the cycle of a started bot over a transport that accepts every
  announcement dispatches exactly their two announcements, in that order.
\<close>

theorem repeated_id_queued_once:
  assumes "get_id ra = JStr ''a''" and "get_id rb = JStr ''b''" and "get_id ra' = JStr ''a''"
    and "sent_numbers b = {}" and "started b" and "\<forall>w a. snd (send w a)"
  shows "filter_new [ra, rb, ra'] [] (sent_numbers b) = (None, [ra, rb], {JStr ''a'', JStr ''b''})
       \<and> dispatched (send_success_numbers_to_group send b w (Response 200 [ra, rb, ra']))
           = [build_announcement ra, build_announcement rb]"
proof -
  have f: "filter_new [ra, rb, ra'] [] (sent_numbers b) = (None, [ra, rb], {JStr ''a'', JStr ''b''})"
    using assms(1-4) by (auto simp: Let_def)
  have p: "get_recent_success_numbers_after_start b (Response 200 [ra, rb, ra']) = [ra, rb, ra']"
    using assms(5) by (simp add: get_recent_success_numbers_after_start_def numbers_of_def)
  obtain w2 out2 e2 where d: "deliver send w [ra, rb] = (w2, out2, e2)"
    by (cases "deliver send w [ra, rb]")
  from assms(6) have "\<And>w a. snd (send w a)" by simp
  from deliver_all_ok [of send w "[ra, rb]", OF this] d
  have "out2 = [build_announcement ra, build_announcement rb]" by simp
  moreover have "dispatched (send_success_numbers_to_group send b w (Response 200 [ra, rb, ra'])) = out2"
    using cycle_unfold [of b "Response 200 [ra, rb, ra']", unfolded p, OF f d]
    by (simp add: dispatched_def p)
  ultimately show ?thesis using f by simp
qed

text \<open>Witness for C3.\<close>

theorem repeated_id_queued_once_witness:
  "filter_new [rec_with_id ''a'', rec_with_id ''b'', rec_with_id ''a''] [] {}
      = (None, [rec_with_id ''a'', rec_with_id ''b''], {JStr ''a'', JStr ''b''})
   \<and> dispatched (send_success_numbers_to_group always_ok example_bot ()
         (Response 200 [rec_with_id ''a'', rec_with_id ''b'', rec_with_id ''a'']))
      = [build_announcement (rec_with_id ''a''), build_announcement (rec_with_id ''b'')]"
  using repeated_id_queued_once [of "rec_with_id ''a''" "rec_with_id ''b''" "rec_with_id ''a''"
      example_bot always_ok "()"]
  by (simp add: rec_with_id_def get_id_def example_bot_def always_ok_def)

lemma deliver_append:
  "deliver send w pre = (w1, out1, None) \<Longrightarrow> deliver send w1 rest = (w2, out2, e2) \<Longrightarrow>
     deliver send w (pre @ rest) = (w2, out1 @ out2, e2)"
proof (induction pre arbitrary: w out1)
  case Nil
  then show ?case by simp
next
  case (Cons r rs)
  obtain wa ok where s: "send w (build_announcement r) = (wa, ok)"
    by (cases "send w (build_announcement r)")
  obtain wb outb eb where d: "deliver send wa rs = (wb, outb, eb)"
    by (cases "deliver send wa rs")
  note u = deliver_Cons [OF s d]
  from u Cons.prems(1) have ok: ok by (cases ok) simp_all
  with u Cons.prems(1) have eq: "wb = w1" "out1 = build_announcement r # outb" "eb = None"
    by simp_all
  from d eq have "deliver send wa rs = (w1, outb, None)" by simp
  from Cons.IH [OF this Cons.prems(2)]
  have t: "deliver send wa (rs @ rest) = (w2, outb @ out2, e2)" .
  from deliver_Cons [OF s t] ok eq show ?case by simp
qed

text \<open>
  C4, as stated, fails: the delivery loop has no handler of its own, and the first
  failure leaves it for the \<^verbatim>\<open>except\<close> clause of the whole cycle. With two new
  records and a transport that rejects only its first call, nothing is dispatched,
  although the transport would have accepted the second announcement at its next call.
\<close>

theorem failure_blocks_counterexample:
  "dispatched (send_success_numbers_to_group (fails_at 0) example_bot 0
       (Response 200 [rec_with_id ''a'', rec_with_id ''b''])) = []
   \<and> snd (fails_at 0 1 (build_announcement (rec_with_id ''b'')))"
  by (simp add: send_success_numbers_to_group_def get_recent_success_numbers_after_start_def
      numbers_of_def example_bot_def rec_with_id_def get_id_def fails_at_def Let_def
      dispatched_def)

text \<open>
  C4 (amended): a delivery failure for one kept record ends the delivery loop of the
  cycle. When the kept records before \<open>n\<close> have been delivered and the transport
  rejects the announcement of \<open>n\<close>, the loop ends with the error and with exactly the
  announcements of the records before \<open>n\<close> dispatched, whatever records follow \<open>n\<close>.
\<close>

theorem delivery_failure_ends_loop:
  assumes "deliver send w pre = (w1, out1, None)"
    and "\<not> snd (send w1 (build_announcement n))"
  shows "deliver send w (pre @ n # post)
           = (fst (send w1 (build_announcement n)), map build_announcement pre, Some SendError)"
proof -
  obtain wa ok where s: "send w1 (build_announcement n) = (wa, ok)"
    by (cases "send w1 (build_announcement n)")
  with assms(2) have "\<not> ok" by simp
  with s have f: "deliver send w1 (n # post) = (wa, [], Some SendError)" by simp
  from deliver_prefix_aux [OF assms(1)] have "map build_announcement pre = out1"
    by (metis order_refl take_all)
  with deliver_append [OF assms(1) f] s show ?thesis by simp
qed

text \<open>Witness for C4 (amended): three kept records, the second call rejected.\<close>

theorem delivery_failure_ends_loop_witness:
  "deliver (fails_at 1) 0 [rec_with_id ''a'', rec_with_id ''b'', rec_with_id ''c'']
     = (2, [build_announcement (rec_with_id ''a'')], Some SendError)"
  using delivery_failure_ends_loop [of "fails_at 1" 0 "[rec_with_id ''a'']" 1
      "[build_announcement (rec_with_id ''a'')]" "rec_with_id ''b''" "[rec_with_id ''c'']"]
  by (simp add: fails_at_def)

text \<open>
  C8: when the ledger already holds the id of every record of the fetched page (of
  every record that has a truthy id), the cycle dispatches no announcement, leaves the
  ledger as it is and does not call the transport.
\<close>

theorem seen_page_is_idle:
  assumes "\<forall>n\<in>set (get_recent_success_numbers_after_start b resp).
             truthy (get_id n) \<longrightarrow> record_key n \<in> sent_numbers b"
  shows "dispatched (send_success_numbers_to_group send b w resp) = []
       \<and> ledger_after (send_success_numbers_to_group send b w resp) = sent_numbers b
       \<and> fst (snd (send_success_numbers_to_group send b w resp)) = w"
proof -
  let ?page = "get_recent_success_numbers_after_start b resp"
  from filter_new_all_seen [OF assms, of "[]"]
  obtain e where f: "filter_new ?page [] (sent_numbers b) = (e, [], sent_numbers b)" by blast
  obtain w2 out2 e2 where d: "deliver send w [] = (w2, out2, e2)" by simp
  show ?thesis
    unfolding cycle_unfold [OF f d] by (simp add: dispatched_def ledger_after_def)
qed

text \<open>Witness for C8.\<close>

theorem seen_page_is_idle_witness:
  "dispatched (send_success_numbers_to_group always_ok
       (example_bot\<lparr>sent_numbers := {JStr ''a'', JStr ''b''}\<rparr>) ()
       (Response 200 [rec_with_id ''a'', rec_with_id ''b'', rec_with_id ''a''])) = []
   \<and> ledger_after (send_success_numbers_to_group always_ok
       (example_bot\<lparr>sent_numbers := {JStr ''a'', JStr ''b''}\<rparr>) ()
       (Response 200 [rec_with_id ''a'', rec_with_id ''b'', rec_with_id ''a''])) = {JStr ''a'', JStr ''b''}"
  using seen_page_is_idle [of "example_bot\<lparr>sent_numbers := {JStr ''a'', JStr ''b''}\<rparr>"
      "Response 200 [rec_with_id ''a'', rec_with_id ''b'', rec_with_id ''a'']" always_ok "()"]
  by (simp add: get_recent_success_numbers_after_start_def numbers_of_def example_bot_def
      record_key_rec_with_id)

text \<open>
  C10: when every element of the ledger is truthy before a cycle, every element is
  truthy after it; the announcements dispatched are those of a subsequence of the page
  whose records all have a truthy id; and what the cycle adds to the ledger are ids of
  records of the page with a truthy id.
\<close>

theorem falsy_ids_never_enter:
  assumes "\<forall>k\<in>sent_numbers b. truthy k"
  shows "(\<forall>k\<in>ledger_after (send_success_numbers_to_group send b w resp). truthy k)
       \<and> (\<exists>rs. subseq rs (get_recent_success_numbers_after_start b resp)
              \<and> (\<forall>n\<in>set rs. truthy (get_id n))
              \<and> dispatched (send_success_numbers_to_group send b w resp)
                    = map build_announcement rs)
       \<and> ledger_after (send_success_numbers_to_group send b w resp)
            \<subseteq> sent_numbers b
              \<union> record_key ` {n \<in> set (get_recent_success_numbers_after_start b resp).
                                  truthy (get_id n)}"
proof -
  let ?page = "get_recent_success_numbers_after_start b resp"
  let ?r = "send_success_numbers_to_group send b w resp"
  note ks = kept_spec [of b resp]
  from ks have sub: "set (kept b resp) \<subseteq> set ?page"
    by (auto dest: list_emb_set)
  from ks have tr: "\<forall>n\<in>set (kept b resp). truthy (get_id n)" by simp
  have led: "ledger_after ?r = sent_numbers b \<union> record_key ` set (kept b resp)"
    by (rule cycle_ledger)
  have 1: "\<forall>k\<in>ledger_after ?r. truthy k"
    using assms tr unfolding led by (auto simp: record_key_def truthy_set_key)
  from cycle_dispatched [of b resp send w] obtain k where
    k: "dispatched ?r = map build_announcement (take k (kept b resp))" by blast
  have "subseq (take k (kept b resp)) (kept b resp)"
    by (rule prefix_imp_subseq) (rule take_is_prefix)
  with ks have "subseq (take k (kept b resp)) ?page"
    by (meson subseq_order.order_trans)
  moreover have "\<forall>n\<in>set (take k (kept b resp)). truthy (get_id n)"
    using tr by (meson in_set_takeD)
  ultimately have 2: "\<exists>rs. subseq rs ?page \<and> (\<forall>n\<in>set rs. truthy (get_id n))
      \<and> dispatched ?r = map build_announcement rs"
    using k by blast
  have 3: "ledger_after ?r \<subseteq> sent_numbers b \<union> record_key ` {n \<in> set ?page. truthy (get_id n)}"
    unfolding led using sub tr by auto
  from 1 2 3 show ?thesis by blast
qed

text \<open>Witness for C10: a page with an empty-string id and the id \<^verbatim>\<open>a\<close>.\<close>

theorem falsy_ids_never_enter_witness:
  "ledger_after (send_success_numbers_to_group always_ok example_bot ()
      (Response 200 [rec_with_id [], rec_with_id ''a''])) = {JStr ''a''}"
  using falsy_ids_never_enter [of example_bot always_ok "()"
      "Response 200 [rec_with_id [], rec_with_id ''a'']"]
  by (simp add: send_success_numbers_to_group_def get_recent_success_numbers_after_start_def
      numbers_of_def example_bot_def rec_with_id_def get_id_def always_ok_def Let_def
      ledger_after_def)

end
